theory Spec2Isabelle
  imports Main "HOL-Library.Sublist"
begin

section \<open>The prisma CLI wrapper (cli/cli.go)\<close>

text \<open>
  A Go \<open>string\<close> is a sequence of bytes; it is modelled by \<open>string\<close> (a list of
  8-bit \<open>char\<close>s), and every offset below is a byte offset, as in Go.
\<close>

subsection \<open>Character classes of Go's regexp package\<close>

text \<open>
  \<open>\s\<close> is the Perl class \<open>[\t\n\f\r ]\<close> and \<open>\w\<close> is \<open>[0-9A-Za-z_]\<close>; both are
  ASCII-only.  Bytes of a multi-byte UTF-8 sequence are all \<open>\<ge> 0x80\<close>, so none of them
  is in either class, none is the byte of \<open>}\<close>, and matching byte by byte agrees with
  matching rune by rune for the two patterns of this file.
\<close>

definition is_space :: "char \<Rightarrow> bool" where
  "is_space c \<longleftrightarrow> c = CHR 0x09 \<or> c = CHR 0x0A \<or> c = CHR 0x0C \<or> c = CHR 0x0D \<or> c = CHR 0x20"

definition is_word :: "char \<Rightarrow> bool" where
  "is_word c \<longleftrightarrow>
     (let n = (of_char c :: nat)
      in (48 \<le> n \<and> n \<le> 57) \<or> (65 \<le> n \<and> n \<le> 90) \<or> (97 \<le> n \<and> n \<le> 122) \<or> n = 95)"

definition not_rbrace :: "char \<Rightarrow> bool" where
  "not_rbrace c \<longleftrightarrow> c \<noteq> CHR ''}''"

subsection \<open>The datasource pattern\<close>

text \<open>
  \<^verbatim>\<open>regexp.MustCompile(`(?s)datasource\s+\w+\s+\{([^}]+)\}`)\<close>

  \<open>datasourceRegex_at s\<close> runs the pattern anchored at the first byte of \<open>s\<close>.  Each
  greedy repetition is followed by a byte outside its class (\<open>\s+\<close> by a \<open>\w\<close>,
  \<open>\w+\<close> by a \<open>\s\<close>, \<open>\s+\<close> by \<open>{\<close>, \<open>[^}]+\<close> by \<open>}\<close>), so a match takes the
  whole run every time and no backtracking can succeed where the greedy scan fails.
  \<open>header_at\<close> is the part \<open>datasource\s+\w+\s+\{\<close> and returns the offset after the
  brace; \<open>datasourceRegex_at\<close> returns the submatch index of the one capture group and
  the end of the match, relative to \<open>s\<close>.
\<close>

definition header_at :: "string \<Rightarrow> nat option" where
  "header_at s =
     (if \<not> prefix ''datasource'' s then None
      else
        let r1 = drop 10 s;
            ws1 = takeWhile is_space r1; r2 = dropWhile is_space r1;
            ident = takeWhile is_word r2; r3 = dropWhile is_word r2;
            ws2 = takeWhile is_space r3; r4 = dropWhile is_space r3
        in if ws1 = [] \<or> ident = [] \<or> ws2 = [] then None
           else (case r4 of
                   [] \<Rightarrow> None
                 | c # r5 \<Rightarrow>
                     if c \<noteq> CHR ''{'' then None
                     else Some (10 + length ws1 + length ident + length ws2 + 1)))"

definition datasourceRegex_at :: "string \<Rightarrow> (nat \<times> nat \<times> nat) option" where
  "datasourceRegex_at s =
     (case header_at s of
        None \<Rightarrow> None
      | Some start \<Rightarrow>
          let r5 = drop start s;
              body = takeWhile not_rbrace r5; r6 = dropWhile not_rbrace r5
          in if body = [] \<or> r6 = [] then None
             else Some (start, start + length body, start + length body + 1))"

text \<open>
  The unanchored search tries every start offset from left to right and keeps the first
  that matches (leftmost match); \<open>i\<close> is the offset of \<open>s\<close> in the document.
\<close>

fun datasourceRegex_from :: "nat \<Rightarrow> string \<Rightarrow> nat list" where
  "datasourceRegex_from i [] = []"
| "datasourceRegex_from i (c # cs) =
     (case datasourceRegex_at (c # cs) of
        Some (a, b, e) \<Rightarrow> [i, i + e, i + a, i + b]
      | None \<Rightarrow> datasourceRegex_from (Suc i) cs)"

text \<open>
  \<open>FindStringSubmatchIndex\<close>: \<open>[]\<close> (Go's nil slice) when there is no match, else
  \<open>[m0, m1, m2, m3]\<close>: the match is \<open>s[m0:m1]\<close> and the capture group \<open>s[m2:m3]\<close>.
\<close>

definition FindStringSubmatchIndex :: "string \<Rightarrow> nat list" where
  "FindStringSubmatchIndex schemaStr = datasourceRegex_from 0 schemaStr"

subsection \<open>The url pattern\<close>

text \<open>
  \<^verbatim>\<open>regexp.MustCompile(`\burl\s*=`)\<close>

  \<open>\b\<close> holds where exactly one of the byte before and the byte after is a \<open>\w\<close>
  (the start and the end of the text count as non-word).  \<open>pw\<close> says whether the
  byte before the current offset is a word byte.
\<close>

definition word_boundary :: "bool \<Rightarrow> string \<Rightarrow> bool" where
  "word_boundary pw s \<longleftrightarrow> pw \<noteq> (case s of [] \<Rightarrow> False | c # _ \<Rightarrow> is_word c)"

definition urlRegex_at :: "bool \<Rightarrow> string \<Rightarrow> bool" where
  "urlRegex_at pw s \<longleftrightarrow>
     word_boundary pw s \<and> prefix ''url'' s \<and>
     (case dropWhile is_space (drop 3 s) of [] \<Rightarrow> False | c # _ \<Rightarrow> c = CHR ''='')"

fun urlRegex_from :: "bool \<Rightarrow> string \<Rightarrow> bool" where
  "urlRegex_from pw [] = False"
| "urlRegex_from pw (c # cs) = (urlRegex_at pw (c # cs) \<or> urlRegex_from (is_word c) cs)"

definition MatchString :: "string \<Rightarrow> bool" where
  "MatchString blockContent = urlRegex_from False blockContent"

subsection \<open>Deciding and patching (shimSchemaCompatibility, lines 108 to 137)\<close>

datatype ShimResult = Unchanged | Patched string

definition injected :: string where
  "injected = CHR 0x0A # ''  url = env('' @ [CHR 0x22] @ ''DB_URL'' @ [CHR 0x22] @ '')''"

text \<open>
  Go's \<open>s[a:b]\<close> is \<open>take (b - a) (drop a s)\<close>; the two offsets come from a match, so
  \<open>a \<le> b \<le> len(s)\<close> and the slice expressions cannot panic.
\<close>

definition Evaluate :: "string \<Rightarrow> ShimResult" where
  "Evaluate schemaStr =
     (let match = FindStringSubmatchIndex schemaStr
      in if length match < 4 then Unchanged
         else
           let blockStart = match ! 2; blockEnd = match ! 3;
               blockContent = take (blockEnd - blockStart) (drop blockStart schemaStr)
           in if MatchString blockContent then Unchanged
              else Patched (take blockStart schemaStr @ injected @ drop blockStart schemaStr))"

subsection \<open>Locating the schema and rewriting the arguments\<close>

text \<open>
  \<open>findSchemaPath\<close> (lines 185 to 195).  The loop visits \<open>args[i]\<close> with the rest of the
  slice after it: \<open>i+1 < len(args)\<close> says the rest is not empty and \<open>args[i+1]\<close> is its head.
\<close>

fun findSchemaPath :: "string list \<Rightarrow> string" where
  "findSchemaPath [] = []"
| "findSchemaPath (arg # rest) =
     (if arg = ''--schema'' \<and> rest \<noteq> [] then hd rest
      else if prefix ''--schema='' arg then drop (length ''--schema='') arg
      else findSchemaPath rest)"

text \<open>
  The loop of lines 156 to 168 over the copy \<open>newArgs\<close>, from index \<open>i\<close>; it returns the
  slice and \<open>found\<close>.
\<close>

function updateArgs_loop :: "string \<Rightarrow> nat \<Rightarrow> string list \<Rightarrow> string list \<times> bool" where
  "updateArgs_loop tmpName i newArgs =
     (if \<not> i < length newArgs then (newArgs, False)
      else
        let arg = newArgs ! i
        in if arg = ''--schema'' \<and> i + 1 < length newArgs
           then (newArgs[i + 1 := tmpName], True)
           else if prefix ''--schema='' arg
           then (newArgs[i := ''--schema='' @ tmpName], True)
           else updateArgs_loop tmpName (i + 1) newArgs)"
  by pat_completeness auto
termination
  by (relation "measure (\<lambda>(t, i, xs). length xs - i)") auto

declare updateArgs_loop.simps [simp del]

text \<open>Lines 153 to 176: copy, loop, and append the pair when no flag was found.\<close>

definition updateArgs :: "string \<Rightarrow> string list \<Rightarrow> string list" where
  "updateArgs tmpName args =
     (let (newArgs, found) = updateArgs_loop tmpName 0 args
      in if \<not> found then newArgs @ [''--schema'', tmpName] else newArgs)"

subsection \<open>The file system and the collaborators\<close>

text \<open>
  A file system maps a path to a file; a file may be unreadable (\<open>os.ReadFile\<close> fails
  on it although \<open>os.Stat\<close> succeeds).  Two different paths name two different files.
\<close>

record osfile =
  readable :: bool
  bytes :: string

type_synonym filesystem = "string \<rightharpoonup> osfile"

datatype error =
    External string
  | CouldNotFetchBinaries error
  | FailedToShimSchema error
  | CouldNotCreateTempSchemaFile error
  | CouldNotWriteToTempSchemaFile error
  | CouldNotRun "string list" error

definition os_Stat :: "filesystem \<Rightarrow> string \<Rightarrow> bool" where
  \<comment> \<open>\<open>err == nil\<close> of \<open>os.Stat(p)\<close>\<close>
  "os_Stat fs p \<longleftrightarrow> fs p \<noteq> None"

definition os_ReadFile :: "filesystem \<Rightarrow> string \<Rightarrow> string option" where
  "os_ReadFile fs p =
     (case fs p of None \<Rightarrow> None | Some f \<Rightarrow> if readable f then Some (bytes f) else None)"

text \<open>
  \<open>os.Remove(p)\<close> returns an error when there is no file at \<open>p\<close>, and it can return
  one for a file that is there (a directory without write permission, a file in use):
  \<open>fails p fs\<close> says that it does so in the file system \<open>fs\<close>.  A removal that fails
  leaves the file system as it is.
\<close>

definition os_Remove ::
  "(string \<Rightarrow> filesystem \<Rightarrow> bool) \<Rightarrow> string \<Rightarrow> filesystem \<Rightarrow> error option \<times> filesystem" where
  "os_Remove fails p fs =
     (if fs p = None \<or> fails p fs then (Some (External ''Remove''), fs)
      else (None, fs(p := None)))"

text \<open>
  Lines 147 and 179 call \<open>os.Remove(tmpFile.Name())\<close> as a statement: the error is
  dropped and only the effect on the file system is left.
\<close>

definition os_Remove_discard ::
  "(string \<Rightarrow> filesystem \<Rightarrow> bool) \<Rightarrow> string \<Rightarrow> filesystem \<Rightarrow> filesystem" where
  "os_Remove_discard fails p fs = snd (os_Remove fails p fs)"

text \<open>
  \<open>os.CreateTemp\<close> opens a new file with \<open>O_EXCL\<close> under a random name and tries the
  next name when the file exists; \<open>names\<close> are the names it would try, in order.  It
  fails when they run out.
\<close>

fun os_CreateTemp :: "string list \<Rightarrow> filesystem \<Rightarrow> (error + string) \<times> filesystem" where
  "os_CreateTemp [] fs = (Inl (External ''CreateTemp''), fs)"
| "os_CreateTemp (n # names) fs =
     (if fs n = None then (Inr n, fs(n \<mapsto> \<lparr>readable = True, bytes = []\<rparr>))
      else os_CreateTemp names fs)"

text \<open>
  \<open>tmpFile.WriteString\<close>: with fault \<open>Some k\<close> the write stops after \<open>k\<close> bytes and
  returns an error; with \<open>None\<close> it writes the whole string.
\<close>

definition WriteString ::
  "nat option \<Rightarrow> string \<Rightarrow> string \<Rightarrow> filesystem \<Rightarrow> error option \<times> filesystem" where
  "WriteString fault tmpName s fs =
     (case fault of
        None \<Rightarrow> (None, fs(tmpName \<mapsto> \<lparr>readable = True, bytes = s\<rparr>))
      | Some k \<Rightarrow> (Some (External ''WriteString''),
                   fs(tmpName \<mapsto> \<lparr>readable = True, bytes = take k s\<rparr>)))"

record Engine =
  Name :: string
  Env :: string

text \<open>
  What \<open>Run\<close> takes from the packages \<open>binaries\<close>, \<open>platform\<close>, \<open>os\<close>, \<open>path\<close> and
  \<open>os/exec\<close>.  \<open>FetchNative\<close> and the child process (\<open>cmd_Run\<close>, given the binary's
  path, the arguments, the environment and \<open>output\<close>) may change the file system in any
  way.  \<open>temp_names\<close>, \<open>write_fault\<close> and \<open>remove_fault\<close> say how \<open>os.CreateTemp\<close>,
  \<open>WriteString\<close> and \<open>os.Remove\<close> behave.
\<close>

record collaborators =
  GlobalCacheDir :: string
  PrismaCLIName :: string
  EngineVersion :: string
  Engines :: "Engine list"
  BinaryName :: string
  Environ :: "string list"
  Getenv :: "string \<Rightarrow> string"
  path_Join :: "string list \<Rightarrow> string"
  FetchNative :: "string \<Rightarrow> filesystem \<Rightarrow> error option \<times> filesystem"
  cmd_Run :: "string \<Rightarrow> string list \<Rightarrow> string list \<Rightarrow> bool \<Rightarrow> filesystem
                \<Rightarrow> error option \<times> filesystem"
  temp_names :: "string list"
  write_fault :: "nat option"
  remove_fault :: "string \<Rightarrow> filesystem \<Rightarrow> bool"

subsection \<open>shimSchemaCompatibility (lines 79 to 183)\<close>

definition defaultPaths :: "string list" where
  "defaultPaths = [''./schema.prisma'', ''./prisma/schema.prisma'']"

fun firstExisting :: "filesystem \<Rightarrow> string list \<Rightarrow> string" where
  "firstExisting fs [] = []"
| "firstExisting fs (p # ps) = (if os_Stat fs p then p else firstExisting fs ps)"

definition locateSchema :: "filesystem \<Rightarrow> string list \<Rightarrow> string" where
  "locateSchema fs args =
     (let schemaPath = findSchemaPath args
      in if schemaPath = [] then firstExisting fs defaultPaths else schemaPath)"

text \<open>
  The result is the argument slice, the cleanup closure (\<open>None\<close> is Go's nil), the error
  and the file system after the call.
\<close>

definition shimSchemaCompatibility ::
  "('a collaborators_scheme) \<Rightarrow> string list \<Rightarrow> filesystem
     \<Rightarrow> string list \<times> (filesystem \<Rightarrow> filesystem) option \<times> error option \<times> filesystem" where
  "shimSchemaCompatibility c args fs =
     (let schemaPath = locateSchema fs args
      in if schemaPath = [] then (args, None, None, fs)
         else (case os_ReadFile fs schemaPath of
                 None \<Rightarrow> (args, None, None, fs)
               | Some schemaStr \<Rightarrow>
                   (case Evaluate schemaStr of
                      Unchanged \<Rightarrow> (args, None, None, fs)
                    | Patched newSchemaStr \<Rightarrow>
                        (case os_CreateTemp (temp_names c) fs of
                           (Inl err, fs1) \<Rightarrow>
                             (args, None, Some (CouldNotCreateTempSchemaFile err), fs1)
                         | (Inr tmpName, fs1) \<Rightarrow>
                             (case WriteString (write_fault c) tmpName newSchemaStr fs1 of
                                (Some err, fs2) \<Rightarrow>
                                  (args, None, Some (CouldNotWriteToTempSchemaFile err),
                                   os_Remove_discard (remove_fault c) tmpName fs2)
                              | (None, fs2) \<Rightarrow>
                                  (updateArgs tmpName args,
                                   Some (os_Remove_discard (remove_fault c) tmpName),
                                   None, fs2))))))"

subsection \<open>Run (lines 17 to 75)\<close>

definition engineValue :: "('a collaborators_scheme) \<Rightarrow> string \<Rightarrow> Engine \<Rightarrow> string" where
  "engineValue c dir engine =
     (let env = Getenv c (Env engine)
      in if env \<noteq> [] then env
         else path_Join c
                [dir, EngineVersion c, ''prisma-'' @ Name engine @ ''-'' @ BinaryName c])"

fun enginesLoop ::
  "('a collaborators_scheme) \<Rightarrow> string \<Rightarrow> Engine list \<Rightarrow> string list \<Rightarrow> string list" where
  "enginesLoop c dir [] cmdEnv = cmdEnv"
| "enginesLoop c dir (engine # engines) cmdEnv =
     enginesLoop c dir engines (cmdEnv @ [Env engine @ ''='' @ engineValue c dir engine])"

definition composeEnv :: "('a collaborators_scheme) \<Rightarrow> string \<Rightarrow> string list" where
  "composeEnv c dir =
     (let cmdEnv = Environ c;
          cmdEnv = cmdEnv @ [''PRISMA_HIDE_UPDATE_MESSAGE=true''];
          cmdEnv = cmdEnv @ [''PRISMA_CLI_QUERY_ENGINE_TYPE=binary'']
      in enginesLoop c dir (Engines c) cmdEnv)"

text \<open>
  The deferred \<open>cleanup\<close> runs when \<open>Run\<close> returns, after \<open>cmd.Run\<close> whatever its
  result; the two early returns come before the \<open>defer\<close> statement.
\<close>

definition Run ::
  "('a collaborators_scheme) \<Rightarrow> string list \<Rightarrow> bool \<Rightarrow> filesystem \<Rightarrow> error option \<times> filesystem" where
  "Run c arguments output fs =
     (let dir = GlobalCacheDir c
      in case FetchNative c dir fs of
           (Some err, fs1) \<Rightarrow> (Some (CouldNotFetchBinaries err), fs1)
         | (None, fs1) \<Rightarrow>
             (let prisma = PrismaCLIName c
              in case shimSchemaCompatibility c arguments fs1 of
                   (arguments', cleanup, Some err, fs2) \<Rightarrow> (Some (FailedToShimSchema err), fs2)
                 | (arguments', cleanup, None, fs2) \<Rightarrow>
                     (let deferred = (case cleanup of None \<Rightarrow> (\<lambda>fs. fs) | Some f \<Rightarrow> f);
                          (res, fs3) = cmd_Run c (path_Join c [dir, prisma]) arguments'
                                         (composeEnv c dir) output fs2
                      in case res of
                           Some err \<Rightarrow> (Some (CouldNotRun arguments' err), deferred fs3)
                         | None \<Rightarrow> (None, deferred fs3))))"

subsection \<open>The specification's vocabulary\<close>

text \<open>
  A datasource block as the specification describes it: the keyword, whitespace, one
  identifier, whitespace, \<open>{\<close>, then the body up to the first \<open>}\<close>.  \<open>pre\<close> is the
  text before the keyword and \<open>post\<close> the text after the closing brace.
\<close>

definition header :: "string \<Rightarrow> string \<Rightarrow> string \<Rightarrow> string" where
  "header ws1 ident ws2 = ''datasource'' @ ws1 @ ident @ ws2 @ ''{''"

definition header_parts :: "string \<Rightarrow> string \<Rightarrow> string \<Rightarrow> bool" where
  "header_parts ws1 ident ws2 \<longleftrightarrow>
     ws1 \<noteq> [] \<and> list_all is_space ws1 \<and> ident \<noteq> [] \<and> list_all is_word ident \<and>
     ws2 \<noteq> [] \<and> list_all is_space ws2"

definition datasource_block ::
  "string \<Rightarrow> string \<Rightarrow> string \<Rightarrow> string \<Rightarrow> string \<Rightarrow> string \<Rightarrow> string \<Rightarrow> bool" where
  "datasource_block doc pre ws1 ident ws2 body post \<longleftrightarrow>
     doc = pre @ header ws1 ident ws2 @ body @ ''}'' @ post \<and>
     header_parts ws1 ident ws2 \<and> list_all not_rbrace body"

text \<open>The first block of a document: no block starts at a smaller offset.\<close>

definition first_block ::
  "string \<Rightarrow> string \<Rightarrow> string \<Rightarrow> string \<Rightarrow> string \<Rightarrow> string \<Rightarrow> string \<Rightarrow> bool" where
  "first_block doc pre ws1 ident ws2 body post \<longleftrightarrow>
     datasource_block doc pre ws1 ident ws2 body post \<and>
     (\<forall>pre' ws1' ident' ws2' body' post'.
        datasource_block doc pre' ws1' ident' ws2' body' post' \<longrightarrow> length pre \<le> length pre')"

text \<open>The first block among those whose body is not empty.\<close>

definition first_nonempty_block ::
  "string \<Rightarrow> string \<Rightarrow> string \<Rightarrow> string \<Rightarrow> string \<Rightarrow> string \<Rightarrow> string \<Rightarrow> bool" where
  "first_nonempty_block doc pre ws1 ident ws2 body post \<longleftrightarrow>
     datasource_block doc pre ws1 ident ws2 body post \<and> body \<noteq> [] \<and>
     (\<forall>pre' ws1' ident' ws2' body' post'.
        datasource_block doc pre' ws1' ident' ws2' body' post' \<and> body' \<noteq> []
          \<longrightarrow> length pre \<le> length pre')"

text \<open>
  The body has a \<open>url\<close> property: the name \<open>url\<close>, not preceded by a word byte, then
  optional whitespace, then \<open>=\<close>.
\<close>

definition url_property :: "string \<Rightarrow> bool" where
  "url_property body \<longleftrightarrow>
     (\<exists>a ws b. body = a @ ''url'' @ ws @ ''='' @ b \<and>
        (a = [] \<or> \<not> is_word (last a)) \<and> list_all is_space ws)"

text \<open>
  A schema flag at index \<open>i\<close>: the token \<open>--schema\<close> followed by a value token, or one
  token \<open>--schema=<value>\<close>.
\<close>

definition schema_flag_at :: "string list \<Rightarrow> nat \<Rightarrow> bool" where
  "schema_flag_at args i \<longleftrightarrow>
     i < length args \<and>
     ((args ! i = ''--schema'' \<and> i + 1 < length args) \<or> prefix ''--schema='' (args ! i))"

text \<open>
  The value a child process sees for \<open>key\<close>: \<open>os/exec\<close> keeps, for a key that occurs
  more than once in \<open>cmd.Env\<close>, the last entry \<open>key=value\<close>.
\<close>

definition entry_key :: "string \<Rightarrow> string" where
  "entry_key entry = takeWhile (\<lambda>ch. ch \<noteq> CHR ''='') entry"

definition effective :: "string list \<Rightarrow> string \<Rightarrow> string option" where
  "effective cmdEnv key =
     (case filter (\<lambda>entry. CHR ''='' \<in> set entry \<and> entry_key entry = key) (rev cmdEnv) of
        [] \<Rightarrow> None
      | entry # _ \<Rightarrow> Some (drop (length key + 1) entry))"

text \<open>The closed form of one engine entry of the environment.\<close>

definition engineEntry :: "('a collaborators_scheme) \<Rightarrow> string \<Rightarrow> Engine \<Rightarrow> string" where
  "engineEntry c dir engine =
     Env engine @ ''='' @
       (if Getenv c (Env engine) \<noteq> [] then Getenv c (Env engine)
        else path_Join c
               [dir, EngineVersion c, ''prisma-'' @ Name engine @ ''-'' @ BinaryName c])"

subsection \<open>Concrete inputs\<close>

definition doc_postgres :: string where
  "doc_postgres =
     ''datasource db {'' @ [CHR 0x0A] @
     ''  provider = '' @ [CHR 0x22] @ ''postgresql'' @ [CHR 0x22] @ [CHR 0x0A] @
     ''}'' @ [CHR 0x0A]"

definition doc_postgres_patched :: string where
  "doc_postgres_patched =
     ''datasource db {'' @ [CHR 0x0A] @
     ''  url = env('' @ [CHR 0x22] @ ''DB_URL'' @ [CHR 0x22] @ '')'' @ [CHR 0x0A] @
     ''  provider = '' @ [CHR 0x22] @ ''postgresql'' @ [CHR 0x22] @ [CHR 0x0A] @
     ''}'' @ [CHR 0x0A]"

definition doc_with_url :: string where
  "doc_with_url = ''datasource db {  url  =env(X) }''"

definition doc_url_in_comment :: string where
  "doc_url_in_comment =
     ''datasource db {// url = env(X)'' @ [CHR 0x0A] @ ''provider = p'' @ [CHR 0x0A] @ ''}''"

text \<open>A stand-in for \<open>path.Join\<close> on clean, non-empty elements.\<close>

fun join_slash :: "string list \<Rightarrow> string" where
  "join_slash [] = []"
| "join_slash [x] = x"
| "join_slash (x # y # ys) = x @ ''/'' @ join_slash (y # ys)"

text \<open>
  Collaborators for the examples: the fetch succeeds and changes nothing, the child
  process fails and changes nothing, one engine variable is set in the environment, and
  every removal of a file that exists succeeds.
\<close>

definition demo_collab :: collaborators where
  "demo_collab =
     \<lparr>GlobalCacheDir = ''/cache'',
      PrismaCLIName = ''prisma-cli-linux'',
      EngineVersion = ''abc123'',
      Engines = [\<lparr>Name = ''query-engine'', Env = ''PRISMA_QUERY_ENGINE_BINARY''\<rparr>,
                 \<lparr>Name = ''schema-engine'', Env = ''PRISMA_SCHEMA_ENGINE_BINARY''\<rparr>],
      BinaryName = ''debian'',
      Environ = [''HOME=/root'', ''PRISMA_QUERY_ENGINE_BINARY=/custom/qe''],
      Getenv = (\<lambda>k. if k = ''HOME'' then ''/root''
                     else if k = ''PRISMA_QUERY_ENGINE_BINARY'' then ''/custom/qe'' else []),
      path_Join = join_slash,
      FetchNative = (\<lambda>dir fs. (None, fs)),
      cmd_Run = (\<lambda>name args env output fs. (Some (External ''exit status 1''), fs)),
      temp_names = [''/tmp/schema-1.prisma''],
      write_fault = None,
      remove_fault = (\<lambda>p fs. False)\<rparr>"



definition demo_args :: "string list" where
  "demo_args = [''migrate'', ''dev'', ''--schema=a.prisma'']"

definition demo_fs :: filesystem where
  "demo_fs = [''a.prisma'' \<mapsto> \<lparr>readable = True, bytes = doc_postgres\<rparr>]"

definition unreadable_fs :: filesystem where
  "unreadable_fs = [''./schema.prisma'' \<mapsto> \<lparr>readable = False, bytes = doc_postgres\<rparr>]"

section \<open>Properties\<close>

lemmas regex_defs =
  header_at_def datasourceRegex_at_def FindStringSubmatchIndex_def
  is_space_def is_word_def not_rbrace_def
  word_boundary_def urlRegex_at_def MatchString_def injected_def

subsection \<open>The matcher finds the blocks of the specification\<close>

text \<open>
  The scan \<open>datasourceRegex_at\<close> succeeds at an offset exactly when the text from
  there on splits as the pattern says (keyword, whitespace, identifier, whitespace,
  \<open>{\<close>, a non-empty body without \<open>}\<close>, then \<open>}\<close>), and its indices are those of
  that split; so the split at an offset is unique and the greedy scan loses no match.
\<close>

lemma space_not_word: "is_space c \<Longrightarrow> \<not> is_word c"
  by (auto simp: is_space_def is_word_def)

lemma lbrace_not_space: "\<not> is_space CHR ''{''"
  by (simp add: is_space_def)

lemma lbrace_not_word: "\<not> is_word CHR ''{''"
  by (simp add: is_word_def)

lemma takeWhile_run:
  "list_all P xs \<Longrightarrow> (ys = [] \<or> \<not> P (hd ys)) \<Longrightarrow> takeWhile P (xs @ ys) = xs"
  by (cases ys) (simp_all add: list_all_iff)

lemma dropWhile_run:
  "list_all P xs \<Longrightarrow> (ys = [] \<or> \<not> P (hd ys)) \<Longrightarrow> dropWhile P (xs @ ys) = ys"
  by (cases ys) (simp_all add: list_all_iff)

lemma header_at_complete:
  assumes "header_parts ws1 ident ws2"
  shows "header_at (header ws1 ident ws2 @ rest) = Some (length (header ws1 ident ws2))"
proof -
  from assms have w1: "ws1 \<noteq> []" "list_all is_space ws1" and i: "ident \<noteq> []" "list_all is_word ident"
    and w2: "ws2 \<noteq> []" "list_all is_space ws2"
    by (auto simp: header_parts_def)
  let ?r4 = "CHR ''{'' # rest"
  let ?r3 = "ws2 @ ?r4"
  let ?r2 = "ident @ ?r3"
  let ?r1 = "ws1 @ ?r2"
  have hi: "\<not> is_space (hd ?r2)" using i by (cases ident) (auto dest: space_not_word)
  have hw: "\<not> is_word (hd ?r3)" using w2 by (cases ws2) (auto dest: space_not_word)
  have t1: "takeWhile is_space ?r1 = ws1" "dropWhile is_space ?r1 = ?r2"
    using w1 hi by (simp_all add: takeWhile_run dropWhile_run)
  have t2: "takeWhile is_word ?r2 = ident" "dropWhile is_word ?r2 = ?r3"
    using i hw by (simp_all add: takeWhile_run dropWhile_run)
  have t3: "takeWhile is_space ?r3 = ws2" "dropWhile is_space ?r3 = ?r4"
    using w2 lbrace_not_space by (simp_all add: takeWhile_run dropWhile_run)
  have s: "header ws1 ident ws2 @ rest = ''datasource'' @ ?r1"
    by (simp add: header_def)
  have p: "prefix ''datasource'' (''datasource'' @ ?r1)" by (rule prefixI) simp
  have d: "drop 10 (''datasource'' @ ?r1) = ?r1" by simp
  show ?thesis
    unfolding s header_at_def using p w1 i w2
    by (simp only: d t1 t2 t3 Let_def) (simp add: header_def)
qed

lemma header_at_sound:
  assumes "header_at s = Some n"
  shows "\<exists>ws1 ident ws2 rest. s = header ws1 ident ws2 @ rest \<and> header_parts ws1 ident ws2
           \<and> n = length (header ws1 ident ws2)"
proof -
  from assms have p: "prefix ''datasource'' s"
    by (auto simp: header_at_def split: if_splits)
  define r1 where "r1 = drop 10 s"
  define ws1 where "ws1 = takeWhile is_space r1"
  define r2 where "r2 = dropWhile is_space r1"
  define ident where "ident = takeWhile is_word r2"
  define r3 where "r3 = dropWhile is_word r2"
  define ws2 where "ws2 = takeWhile is_space r3"
  define r4 where "r4 = dropWhile is_space r3"
  from p have s: "s = ''datasource'' @ r1"
    unfolding r1_def by (auto simp: prefix_def)
  have r1: "r1 = ws1 @ r2" by (simp add: ws1_def r2_def)
  have r2: "r2 = ident @ r3" by (simp add: ident_def r3_def)
  have r3: "r3 = ws2 @ r4" by (simp add: ws2_def r4_def)
  from assms p have ne: "ws1 \<noteq> []" "ident \<noteq> []" "ws2 \<noteq> []"
    and r4: "\<exists>rest. r4 = CHR ''{'' # rest" and n: "n = 10 + length ws1 + length ident + length ws2 + 1"
    unfolding header_at_def Let_def
      r1_def[symmetric] ws1_def[symmetric] r2_def[symmetric] ident_def[symmetric]
      r3_def[symmetric] ws2_def[symmetric] r4_def[symmetric]
    by (auto split: if_splits list.splits)
  then obtain rest where rest: "r4 = CHR ''{'' # rest" by blast
  have all: "list_all is_space ws1" "list_all is_word ident" "list_all is_space ws2"
    by (auto simp: ws1_def ident_def ws2_def list_all_iff dest: set_takeWhileD)
  have "s = header ws1 ident ws2 @ rest"
    using s r1 r2 r3 rest by (simp add: header_def)
  moreover have "header_parts ws1 ident ws2" using ne all by (simp add: header_parts_def)
  moreover have "n = length (header ws1 ident ws2)" using n by (simp add: header_def)
  ultimately show ?thesis by blast
qed


lemma header_lbrace_last:
  assumes "header_parts ws1 ident ws2"
  shows "\<exists>h0. header ws1 ident ws2 = h0 @ ''{'' \<and> CHR ''{'' \<notin> set h0"
proof -
  from assms have "CHR ''{'' \<notin> set ws1" "CHR ''{'' \<notin> set ident" "CHR ''{'' \<notin> set ws2"
    using lbrace_not_space lbrace_not_word by (auto simp: header_parts_def list_all_iff)
  then have "CHR ''{'' \<notin> set (''datasource'' @ ws1 @ ident @ ws2)" by simp
  moreover have "header ws1 ident ws2 = (''datasource'' @ ws1 @ ident @ ws2) @ ''{''"
    by (simp add: header_def)
  ultimately show ?thesis by blast
qed

lemma header_at_prefix_Some:
  assumes lb: "CHR ''{'' \<in> set p" and h: "header_at (p @ x) = Some n"
  shows "header_at (p @ y) = Some n \<and> n \<le> length p"
proof -
  from header_at_sound [OF h] obtain ws1 ident ws2 rest where
    eq: "p @ x = header ws1 ident ws2 @ rest" and hp: "header_parts ws1 ident ws2"
    and n: "n = length (header ws1 ident ws2)" by blast
  from header_lbrace_last [OF hp] obtain h0 where
    h0: "header ws1 ident ws2 = h0 @ ''{''" and nl: "CHR ''{'' \<notin> set h0" by blast
  from eq obtain us where
    "p = header ws1 ident ws2 @ us \<and> us @ x = rest \<or> p @ us = header ws1 ident ws2 \<and> x = us @ rest"
    by (auto simp: append_eq_append_conv2)
  then have "\<exists>p2. p = header ws1 ident ws2 @ p2"
  proof
    assume "p = header ws1 ident ws2 @ us \<and> us @ x = rest"
    then show ?thesis by blast
  next
    assume a: "p @ us = header ws1 ident ws2 \<and> x = us @ rest"
    show ?thesis
    proof (cases "us = []")
      case True
      with a show ?thesis by simp
    next
      case False
      then obtain us' c where us: "us = us' @ [c]" by (metis rev_exhaust)
      with a h0 have "p @ us' = h0" by simp
      then have "set p \<subseteq> set h0" by auto
      with lb nl show ?thesis by blast
    qed
  qed
  then obtain p2 where p2: "p = header ws1 ident ws2 @ p2" by blast
  have "header_at (p @ y) = Some n"
    unfolding p2 n using header_at_complete [OF hp, of "p2 @ y"] by simp
  moreover have "n \<le> length p" unfolding p2 n by simp
  ultimately show ?thesis by blast
qed

lemma header_at_prefix_stable:
  assumes "CHR ''{'' \<in> set p"
  shows "header_at (p @ x) = header_at (p @ y)"
proof (cases "header_at (p @ x)")
  case None
  show ?thesis
  proof (cases "header_at (p @ y)")
    case N2: None
    with None show ?thesis by simp
  next
    case (Some n)
    from header_at_prefix_Some [OF assms Some, of x] None show ?thesis by simp
  qed
next
  case (Some n)
  from header_at_prefix_Some [OF assms Some, of y] Some show ?thesis by simp
qed

lemma datasourceRegex_at_complete:
  assumes hp: "header_parts ws1 ident ws2" and ne: "body \<noteq> []" and nb: "list_all not_rbrace body"
  shows "datasourceRegex_at (header ws1 ident ws2 @ body @ ''}'' @ post) =
           Some (length (header ws1 ident ws2), length (header ws1 ident ws2) + length body,
                 length (header ws1 ident ws2) + length body + 1)"
proof -
  have t: "takeWhile not_rbrace (body @ CHR ''}'' # post) = body"
    "dropWhile not_rbrace (body @ CHR ''}'' # post) = CHR ''}'' # post"
    using nb by (simp_all add: takeWhile_run dropWhile_run not_rbrace_def)
  show ?thesis
    unfolding datasourceRegex_at_def header_at_complete [OF hp]
    using ne by (simp add: t Let_def not_rbrace_def)
qed

lemma datasourceRegex_at_sound:
  assumes "datasourceRegex_at s = Some (a, b, e)"
  shows "\<exists>ws1 ident ws2 body post.
           datasource_block s [] ws1 ident ws2 body post \<and> body \<noteq> [] \<and>
           a = length (header ws1 ident ws2) \<and> b = a + length body \<and> e = b + 1"
proof -
  from assms obtain start where st: "header_at s = Some start"
    by (auto simp: datasourceRegex_at_def split: option.splits)
  from header_at_sound [OF st] obtain ws1 ident ws2 rest where
    s: "s = header ws1 ident ws2 @ rest" and hp: "header_parts ws1 ident ws2"
    and n: "start = length (header ws1 ident ws2)" by blast
  define body where "body = takeWhile not_rbrace rest"
  define r6 where "r6 = dropWhile not_rbrace rest"
  have d: "drop start s = rest" by (simp add: s n)
  from assms st have ne: "body \<noteq> []" "r6 \<noteq> []"
    and abe: "a = start" "b = start + length body" "e = start + length body + 1"
    unfolding datasourceRegex_at_def
    by (auto simp: d Let_def body_def r6_def split: if_splits)
  have rest: "rest = body @ r6" by (simp add: body_def r6_def)
  from ne(2) have "\<not> not_rbrace (hd r6)" unfolding r6_def by (rule hd_dropWhile)
  with ne(2) obtain post where post: "r6 = ''}'' @ post"
    by (cases r6) (auto simp: not_rbrace_def)
  have nb: "list_all not_rbrace body"
    by (auto simp: body_def list_all_iff dest: set_takeWhileD)
  have "datasource_block s [] ws1 ident ws2 body post"
    using s rest post hp nb by (simp add: datasource_block_def)
  with ne abe n show ?thesis by blast
qed

lemma datasourceRegex_at_Nil: "datasourceRegex_at [] = None"
  by (simp add: datasourceRegex_at_def header_at_def)

lemma datasourceRegex_from_complete:
  assumes "datasourceRegex_at rest = Some (a, b, e)"
    and "\<forall>k<length pre. datasourceRegex_at (drop k (pre @ rest)) = None"
  shows "datasourceRegex_from i (pre @ rest) =
           [i + length pre, i + length pre + e, i + length pre + a, i + length pre + b]"
  using assms
proof (induction pre arbitrary: i)
  case Nil
  then show ?case by (cases rest) (simp_all add: datasourceRegex_at_Nil)
next
  case (Cons c pre)
  from Cons.prems(2) have z: "datasourceRegex_at (c # pre @ rest) = None"
    by (metis append_Cons drop0 length_greater_0_conv list.distinct(1))
  have "\<forall>k<length pre. datasourceRegex_at (drop k (pre @ rest)) = None"
  proof (intro allI impI)
    fix k assume "k < length pre"
    then have "Suc k < length (c # pre)" by simp
    with Cons.prems(2) have "datasourceRegex_at (drop (Suc k) ((c # pre) @ rest)) = None" by blast
    then show "datasourceRegex_at (drop k (pre @ rest)) = None" by simp
  qed
  from Cons.IH [OF Cons.prems(1) this, of "Suc i"] z show ?case by simp
qed

lemma datasourceRegex_from_sound:
  assumes "datasourceRegex_from i s \<noteq> []"
  shows "\<exists>pre rest a b e. s = pre @ rest \<and> datasourceRegex_at rest = Some (a, b, e) \<and>
           (\<forall>k<length pre. datasourceRegex_at (drop k s) = None) \<and>
           datasourceRegex_from i s =
             [i + length pre, i + length pre + e, i + length pre + a, i + length pre + b]"
  using assms
proof (induction s arbitrary: i)
  case Nil
  then show ?case by simp
next
  case (Cons c cs)
  show ?case
  proof (cases "datasourceRegex_at (c # cs)")
    case (Some t)
    obtain a b e where t: "t = (a, b, e)" by (cases t)
    have "c # cs = [] @ (c # cs) \<and> datasourceRegex_at (c # cs) = Some (a, b, e) \<and>
          (\<forall>k<length ([]::string). datasourceRegex_at (drop k (c # cs)) = None) \<and>
          datasourceRegex_from i (c # cs) = [i + length ([]::string), i + length ([]::string) + e,
             i + length ([]::string) + a, i + length ([]::string) + b]"
      using Some t by simp
    then show ?thesis by blast
  next
    case None
    with Cons.prems have ne: "datasourceRegex_from (Suc i) cs \<noteq> []" by simp
    from Cons.IH [OF ne] obtain pre rest a b e where
      cs: "cs = pre @ rest" and at: "datasourceRegex_at rest = Some (a, b, e)"
      and no: "\<forall>k<length pre. datasourceRegex_at (drop k cs) = None"
      and r: "datasourceRegex_from (Suc i) cs =
             [Suc i + length pre, Suc i + length pre + e, Suc i + length pre + a, Suc i + length pre + b]"
      by blast
    have no': "\<forall>k<length (c # pre). datasourceRegex_at (drop k (c # cs)) = None"
    proof (intro allI impI)
      fix k assume k: "k < length (c # pre)"
      show "datasourceRegex_at (drop k (c # cs)) = None"
      proof (cases k)
        case 0
        with None show ?thesis by simp
      next
        case (Suc j)
        with k no show ?thesis by simp
      qed
    qed
    have "c # cs = (c # pre) @ rest" using cs by simp
    moreover have "datasourceRegex_from i (c # cs) =
        [i + length (c # pre), i + length (c # pre) + e, i + length (c # pre) + a, i + length (c # pre) + b]"
      using None r by simp
    ultimately show ?thesis using at no' by blast
  qed
qed

subsection \<open>The url pattern and the url property\<close>

lemma urlRegex_at_iff:
  "urlRegex_at pw s \<longleftrightarrow>
     \<not> pw \<and> (\<exists>ws b. s = ''url'' @ ws @ ''='' @ b \<and> list_all is_space ws)"
proof
  assume a: "urlRegex_at pw s"
  then obtain r where s: "s = ''url'' @ r" by (auto simp: urlRegex_at_def prefix_def)
  from a s have npw: "\<not> pw" by (simp add: urlRegex_at_def word_boundary_def is_word_def)
  from a s obtain t where d: "dropWhile is_space r = CHR ''='' # t"
    by (auto simp: urlRegex_at_def split: list.splits)
  have "r = takeWhile is_space r @ dropWhile is_space r" by simp
  with d have "s = ''url'' @ takeWhile is_space r @ ''='' @ t" using s by simp
  moreover have "list_all is_space (takeWhile is_space r)"
    by (auto simp: list_all_iff dest: set_takeWhileD)
  ultimately show "\<not> pw \<and> (\<exists>ws b. s = ''url'' @ ws @ ''='' @ b \<and> list_all is_space ws)"
    using npw by blast
next
  assume "\<not> pw \<and> (\<exists>ws b. s = ''url'' @ ws @ ''='' @ b \<and> list_all is_space ws)"
  then obtain ws b where npw: "\<not> pw" and s: "s = ''url'' @ ws @ ''='' @ b"
    and ws: "list_all is_space ws" by blast
  have d: "dropWhile is_space (ws @ CHR ''='' # b) = CHR ''='' # b"
    using ws by (simp add: dropWhile_run is_space_def)
  show "urlRegex_at pw s"
    using npw by (simp add: s urlRegex_at_def word_boundary_def is_word_def d)
qed

lemma urlRegex_from_iff:
  "urlRegex_from pw s \<longleftrightarrow>
     (\<exists>a ws b. s = a @ ''url'' @ ws @ ''='' @ b \<and> list_all is_space ws \<and>
        (if a = [] then \<not> pw else \<not> is_word (last a)))"
proof (induction s arbitrary: pw)
  case Nil
  then show ?case by simp
next
  case (Cons c cs)
  show ?case
  proof
    assume "urlRegex_from pw (c # cs)"
    then consider "urlRegex_at pw (c # cs)" | "urlRegex_from (is_word c) cs" by auto
    then show "\<exists>a ws b. c # cs = a @ ''url'' @ ws @ ''='' @ b \<and> list_all is_space ws \<and>
        (if a = [] then \<not> pw else \<not> is_word (last a))"
    proof cases
      case 1
      then obtain ws b where "\<not> pw" "c # cs = ''url'' @ ws @ ''='' @ b" "list_all is_space ws"
        unfolding urlRegex_at_iff by blast
      then have "c # cs = [] @ ''url'' @ ws @ ''='' @ b \<and> list_all is_space ws \<and>
        (if ([]::string) = [] then \<not> pw else \<not> is_word (last []))" by simp
      then show ?thesis by blast
    next
      case 2
      then obtain a ws b where cs: "cs = a @ ''url'' @ ws @ ''='' @ b" and ws: "list_all is_space ws"
        and l: "if a = [] then \<not> is_word c else \<not> is_word (last a)"
        unfolding Cons.IH by blast
      have "c # cs = (c # a) @ ''url'' @ ws @ ''='' @ b" using cs by simp
      moreover have "if c # a = [] then \<not> pw else \<not> is_word (last (c # a))"
        using l by (cases "a = []") simp_all
      ultimately show ?thesis using ws by blast
    qed
  next
    assume "\<exists>a ws b. c # cs = a @ ''url'' @ ws @ ''='' @ b \<and> list_all is_space ws \<and>
        (if a = [] then \<not> pw else \<not> is_word (last a))"
    then obtain a ws b where s: "c # cs = a @ ''url'' @ ws @ ''='' @ b" and ws: "list_all is_space ws"
      and l: "if a = [] then \<not> pw else \<not> is_word (last a)" by blast
    show "urlRegex_from pw (c # cs)"
    proof (cases a)
      case Nil
      with s ws l have "urlRegex_at pw (c # cs)" unfolding urlRegex_at_iff by auto
      then show ?thesis by simp
    next
      case (Cons c' a')
      with s have c: "c' = c" and cs: "cs = a' @ ''url'' @ ws @ ''='' @ b" by simp_all
      have "if a' = [] then \<not> is_word c else \<not> is_word (last a')"
        using l Cons c by (cases "a' = []") simp_all
      with cs ws have "urlRegex_from (is_word c) cs" unfolding Cons.IH by blast
      then show ?thesis by simp
    qed
  qed
qed

lemma MatchString_iff: "MatchString body \<longleftrightarrow> url_property body"
  unfolding MatchString_def urlRegex_from_iff url_property_def
  by (metis (full_types))

lemma url_property_nonempty: "url_property body \<Longrightarrow> body \<noteq> []"
  by (auto simp: url_property_def)

lemma url_property_injected: "url_property (injected @ body)"
proof -
  have "injected @ body =
          [CHR 0x0A, CHR '' '', CHR '' ''] @ ''url'' @ '' '' @ ''='' @
          ('' env('' @ [CHR 0x22] @ ''DB_URL'' @ [CHR 0x22] @ '')'' @ body)"
    by (simp add: injected_def)
  moreover have "list_all is_space '' ''" by (simp add: is_space_def)
  moreover have "\<not> is_word (last [CHR 0x0A, CHR '' '', CHR '' ''])" by (simp add: is_word_def)
  ultimately show ?thesis unfolding url_property_def by blast
qed


subsection \<open>What Evaluate does, in terms of blocks\<close>

lemma block_at_offset:
  assumes "datasourceRegex_at (drop k doc) = Some (a, b, e)"
  shows "\<exists>ws1 ident ws2 body post.
           datasource_block doc (take k doc) ws1 ident ws2 body post \<and> body \<noteq> []"
proof -
  from datasourceRegex_at_sound [OF assms] obtain ws1 ident ws2 body post where
    b: "datasource_block (drop k doc) [] ws1 ident ws2 body post" and ne: "body \<noteq> []" by blast
  have "doc = take k doc @ drop k doc" by simp
  with b have "datasource_block doc (take k doc) ws1 ident ws2 body post"
    unfolding datasource_block_def by (metis append_Nil)
  with ne show ?thesis by blast
qed

lemma first_nonempty_block_no_earlier:
  assumes "first_nonempty_block doc pre ws1 ident ws2 body post" and "k < length pre"
  shows "datasourceRegex_at (drop k doc) = None"
proof (cases "datasourceRegex_at (drop k doc)")
  case None
  then show ?thesis .
next
  case (Some t)
  obtain a b e where "t = (a, b, e)" by (cases t)
  with Some block_at_offset obtain ws1' ident' ws2' body' post' where
    "datasource_block doc (take k doc) ws1' ident' ws2' body' post'" "body' \<noteq> []" by blast
  with assms(1) have "length pre \<le> length (take k doc)"
    unfolding first_nonempty_block_def by blast
  with assms(2) show ?thesis by simp
qed

lemma Find_first_nonempty_block:
  assumes f: "first_nonempty_block doc pre ws1 ident ws2 body post"
  shows "FindStringSubmatchIndex doc =
           [length pre,
            length pre + (length (header ws1 ident ws2) + length body + 1),
            length pre + length (header ws1 ident ws2),
            length pre + (length (header ws1 ident ws2) + length body)]"
proof -
  from f have doc: "doc = pre @ (header ws1 ident ws2 @ body @ ''}'' @ post)"
    and hp: "header_parts ws1 ident ws2" and nb: "list_all not_rbrace body" and ne: "body \<noteq> []"
    by (simp_all add: first_nonempty_block_def datasource_block_def)
  have no: "\<forall>k<length pre. datasourceRegex_at (drop k (pre @ (header ws1 ident ws2 @ body @ ''}'' @ post))) = None"
    using first_nonempty_block_no_earlier [OF f] unfolding doc [symmetric] by blast
  note r = datasourceRegex_from_complete [OF datasourceRegex_at_complete [OF hp ne nb] no, of 0, folded doc]
  show ?thesis
    unfolding FindStringSubmatchIndex_def using r by simp
qed

lemma Evaluate_first_nonempty_block:
  assumes f: "first_nonempty_block doc pre ws1 ident ws2 body post"
  shows "Evaluate doc =
           (if url_property body then Unchanged
            else Patched (pre @ header ws1 ident ws2 @ injected @ body @ ''}'' @ post))"
proof -
  from f have doc: "doc = pre @ header ws1 ident ws2 @ body @ ''}'' @ post"
    by (simp add: first_nonempty_block_def datasource_block_def)
  let ?s = "length pre + length (header ws1 ident ws2)"
  have t: "take ?s doc = pre @ header ws1 ident ws2" by (simp add: doc)
  have d: "drop ?s doc = body @ ''}'' @ post" by (simp add: doc)
  have c: "take (length pre + (length (header ws1 ident ws2) + length body) - ?s) (drop ?s doc) = body"
    unfolding d by simp
  show ?thesis
    unfolding Evaluate_def Find_first_nonempty_block [OF f] Let_def
    by (simp only: list.size nth_Cons_numeral nth_Cons_0 nth_Cons_Suc numeral_2_eq_2 numeral_3_eq_3 c t d MatchString_iff)
       simp
qed

lemma Evaluate_Patched_block:
  assumes "Evaluate doc = Patched doc'"
  shows "\<exists>pre ws1 ident ws2 body post.
           first_nonempty_block doc pre ws1 ident ws2 body post \<and> \<not> url_property body \<and>
           doc' = pre @ header ws1 ident ws2 @ injected @ body @ ''}'' @ post"
proof -
  from assms have "datasourceRegex_from 0 doc \<noteq> []"
    by (auto simp: Evaluate_def FindStringSubmatchIndex_def Let_def split: if_splits)
  from datasourceRegex_from_sound [OF this] obtain pre rest a b e where
    doc: "doc = pre @ rest" and at: "datasourceRegex_at rest = Some (a, b, e)"
    and no: "\<forall>k<length pre. datasourceRegex_at (drop k doc) = None" by blast
  from datasourceRegex_at_sound [OF at] obtain ws1 ident ws2 body post where
    b: "datasource_block rest [] ws1 ident ws2 body post" and ne: "body \<noteq> []" by blast
  from b doc have blk: "datasource_block doc pre ws1 ident ws2 body post"
    by (simp add: datasource_block_def)
  have least: "length pre \<le> length pre'"
    if b': "datasource_block doc pre' ws1' ident' ws2' body' post'" and ne': "body' \<noteq> []"
    for pre' ws1' ident' ws2' body' post'
  proof (rule ccontr)
    assume "\<not> length pre \<le> length pre'"
    then have "datasourceRegex_at (drop (length pre') doc) = None" using no by simp
    moreover from b' have "drop (length pre') doc = header ws1' ident' ws2' @ body' @ ''}'' @ post'"
      by (simp add: datasource_block_def)
    moreover from b' have "header_parts ws1' ident' ws2'" "list_all not_rbrace body'"
      by (simp_all add: datasource_block_def)
    ultimately show False using datasourceRegex_at_complete [OF _ ne', of ws1' ident' ws2' post'] by simp
  qed
  have f: "first_nonempty_block doc pre ws1 ident ws2 body post"
    unfolding first_nonempty_block_def using blk ne least by blast
  from Evaluate_first_nonempty_block [OF f] assms
  have "\<not> url_property body \<and> doc' = pre @ header ws1 ident ws2 @ injected @ body @ ''}'' @ post"
    by (auto split: if_splits)
  with f show ?thesis by blast
qed

lemma first_block_nonempty:
  assumes "first_block doc pre ws1 ident ws2 body post" and "body \<noteq> []"
  shows "first_nonempty_block doc pre ws1 ident ws2 body post"
  using assms unfolding first_block_def first_nonempty_block_def by blast

text \<open>
  C1: the document \<open>datasource db {\n  provider = "postgresql"\n}\n\<close> is patched to
  \<open>datasource db {\n  url = env("DB_URL")\n  provider = "postgresql"\n}\n\<close>: the url line
  goes right after the opening brace.
\<close>

theorem C1_concrete_patch: "Evaluate doc_postgres = Patched doc_postgres_patched"
  by (simp add: Evaluate_def doc_postgres_def doc_postgres_patched_def regex_defs)

subsection \<open>Inserting text after the brace of the first block\<close>

lemma datasourceRegex_at_Some_iff:
  "datasourceRegex_at s \<noteq> None \<longleftrightarrow>
     (\<exists>n. header_at s = Some n \<and> drop n s \<noteq> [] \<and> not_rbrace (hd (drop n s)) \<and>
          CHR ''}'' \<in> set (drop n s))"
  by (auto simp: datasourceRegex_at_def Let_def takeWhile_eq_Nil_iff not_rbrace_def
        split: option.splits)

lemma datasourceRegex_at_insert:
  assumes lb: "CHR ''{'' \<in> set u" and ne: "body \<noteq> []" and nb: "list_all not_rbrace body"
    and m: "datasourceRegex_at (u @ ins @ body @ ''}'' @ post) \<noteq> None"
  shows "datasourceRegex_at (u @ body @ ''}'' @ post) \<noteq> None"
proof -
  let ?R = "body @ ''}'' @ post"
  from m obtain n where h: "header_at (u @ (ins @ ?R)) = Some n"
    and d: "drop n (u @ (ins @ ?R)) \<noteq> []" "not_rbrace (hd (drop n (u @ (ins @ ?R))))"
    unfolding datasourceRegex_at_Some_iff by auto
  from header_at_prefix_Some [OF lb h, of ?R]
  have h': "header_at (u @ ?R) = Some n" and n: "n \<le> length u" by simp_all
  have dr: "drop n (u @ ?R) = drop n u @ ?R" using n by simp
  have di: "drop n (u @ (ins @ ?R)) = drop n u @ ins @ ?R" using n by simp
  have a: "not_rbrace (hd (drop n (u @ ?R)))"
  proof (cases "drop n u = []")
    case True
    with ne nb show ?thesis unfolding dr by (cases body) simp_all
  next
    case False
    with d(2) show ?thesis unfolding di dr by simp
  qed
  have b: "CHR ''}'' \<in> set (drop n (u @ ?R))" unfolding dr by simp
  have c: "drop n (u @ ?R) \<noteq> []" unfolding dr by simp
  show ?thesis
    unfolding datasourceRegex_at_Some_iff using h' a b c by blast
qed

lemma first_nonempty_block_patched:
  assumes f: "first_nonempty_block doc pre ws1 ident ws2 body post"
  shows "first_nonempty_block (pre @ header ws1 ident ws2 @ injected @ body @ ''}'' @ post)
           pre ws1 ident ws2 (injected @ body) post"
proof -
  let ?h = "header ws1 ident ws2"
  let ?doc' = "pre @ ?h @ injected @ body @ ''}'' @ post"
  from f have doc: "doc = pre @ ?h @ body @ ''}'' @ post"
    and hp: "header_parts ws1 ident ws2" and nb: "list_all not_rbrace body" and ne: "body \<noteq> []"
    by (simp_all add: first_nonempty_block_def datasource_block_def)
  have ni: "list_all not_rbrace injected" by (simp add: injected_def not_rbrace_def)
  have blk: "datasource_block ?doc' pre ws1 ident ws2 (injected @ body) post"
    using hp nb ni by (simp add: datasource_block_def)
  have least: "length pre \<le> length pre'"
    if b': "datasource_block ?doc' pre' ws1' ident' ws2' body' post'" and ne': "body' \<noteq> []"
    for pre' ws1' ident' ws2' body' post'
  proof (rule ccontr)
    assume "\<not> length pre \<le> length pre'"
    then have k: "length pre' < length pre" by simp
    let ?k = "length pre'"
    let ?u = "drop ?k pre @ ?h"
    from b' have hp': "header_parts ws1' ident' ws2'" and nb': "list_all not_rbrace body'"
      and d': "drop ?k ?doc' = header ws1' ident' ws2' @ body' @ ''}'' @ post'"
      by (simp_all add: datasource_block_def)
    have "datasourceRegex_at (drop ?k ?doc') \<noteq> None"
      unfolding d' using datasourceRegex_at_complete [OF hp' ne' nb'] by simp
    moreover have "drop ?k ?doc' = ?u @ injected @ body @ ''}'' @ post" using k by simp
    moreover have "CHR ''{'' \<in> set ?u" by (simp add: header_def)
    ultimately have "datasourceRegex_at (?u @ body @ ''}'' @ post) \<noteq> None"
      using datasourceRegex_at_insert [OF _ ne nb, of ?u injected post] by simp
    moreover have "drop ?k doc = ?u @ body @ ''}'' @ post" using k by (simp add: doc)
    ultimately show False using first_nonempty_block_no_earlier [OF f k] by simp
  qed
  have "injected @ body \<noteq> []" using ne by simp
  then show ?thesis
    unfolding first_nonempty_block_def using blk least by blast
qed

text \<open>
  C3: patching is idempotent.  When Evaluate patches a document, Evaluate on the patched
  document answers unchanged: the url line is not inserted a second time.
\<close>

theorem C3_patch_idempotent:
  assumes "Evaluate doc = Patched doc'"
  shows "Evaluate doc' = Unchanged"
proof -
  from Evaluate_Patched_block [OF assms] obtain pre ws1 ident ws2 body post where
    f: "first_nonempty_block doc pre ws1 ident ws2 body post"
    and doc': "doc' = pre @ header ws1 ident ws2 @ injected @ body @ ''}'' @ post" by blast
  from Evaluate_first_nonempty_block [OF first_nonempty_block_patched [OF f]] url_property_injected
  show ?thesis unfolding doc' by simp
qed

theorem C3_patch_idempotent_witness:
  "Evaluate doc_postgres = Patched doc_postgres_patched \<and> Evaluate doc_postgres_patched = Unchanged"
proof -
  have h: "Evaluate doc_postgres = Patched doc_postgres_patched"
    by (simp add: Evaluate_def doc_postgres_def doc_postgres_patched_def regex_defs)
  from C3_patch_idempotent [OF h] h show ?thesis by simp
qed

lemma shim_Unchanged:
  assumes "os_ReadFile fs (locateSchema fs args) = Some doc" and "Evaluate doc = Unchanged"
  shows "shimSchemaCompatibility c args fs = (args, None, None, fs)"
  using assms by (simp add: shimSchemaCompatibility_def Let_def)

text \<open>
  C2 as stated fails: a block with an empty body is a datasource block in the words of
  the specification and has no url property, yet the pattern \<open>([^}]+)\<close> wants at
  least one byte in the body, and the document is left unchanged.
\<close>

theorem C2_empty_body_counterexample:
  "first_block ''datasource db {}'' [] '' '' ''db'' '' '' [] [] \<and>
   \<not> url_property [] \<and>
   Evaluate ''datasource db {}'' = Unchanged"
proof -
  have "datasource_block ''datasource db {}'' [] '' '' ''db'' '' '' [] []"
    by (simp add: datasource_block_def header_def header_parts_def is_space_def is_word_def)
  then have "first_block ''datasource db {}'' [] '' '' ''db'' '' '' [] []"
    by (simp add: first_block_def)
  moreover have "\<not> url_property []" by (simp add: url_property_def)
  moreover have "Evaluate ''datasource db {}'' = Unchanged"
    by (simp add: Evaluate_def regex_defs)
  ultimately show ?thesis by blast
qed

text \<open>
  C2, amended: when the first datasource block with a non-empty body has no url property,
  Evaluate returns the document with the injected line right after the opening brace of
  that block: its length is the original's plus the length of the injected line, and the
  bytes before the insertion point and the bytes from it on are the original's, in order.
\<close>

theorem C2_patch_inserts_line:
  assumes "first_nonempty_block doc pre ws1 ident ws2 body post" and "\<not> url_property body"
  shows "\<exists>doc'. Evaluate doc = Patched doc' \<and>
           doc' = pre @ header ws1 ident ws2 @ injected @ body @ ''}'' @ post \<and>
           length doc' = length doc + length injected \<and>
           take (length (pre @ header ws1 ident ws2)) doc' = take (length (pre @ header ws1 ident ws2)) doc \<and>
           drop (length (pre @ header ws1 ident ws2) + length injected) doc' =
             drop (length (pre @ header ws1 ident ws2)) doc"
proof -
  from assms(1) have doc: "doc = pre @ header ws1 ident ws2 @ body @ ''}'' @ post"
    by (simp add: first_nonempty_block_def datasource_block_def)
  from Evaluate_first_nonempty_block [OF assms(1)] assms(2)
  have "Evaluate doc = Patched (pre @ header ws1 ident ws2 @ injected @ body @ ''}'' @ post)"
    by simp
  then show ?thesis by (simp add: doc)
qed


theorem C2_patch_inserts_line_witness:
  "first_nonempty_block doc_postgres [] '' '' ''db'' '' ''
     (CHR 0x0A # ''  provider = '' @ [CHR 0x22] @ ''postgresql'' @ [CHR 0x22, CHR 0x0A]) [CHR 0x0A] \<and>
   \<not> url_property (CHR 0x0A # ''  provider = '' @ [CHR 0x22] @ ''postgresql'' @ [CHR 0x22, CHR 0x0A]) \<and>
   Evaluate doc_postgres = Patched doc_postgres_patched \<and>
   length doc_postgres_patched = length doc_postgres + length injected"
proof -
  let ?body = "CHR 0x0A # ''  provider = '' @ [CHR 0x22] @ ''postgresql'' @ [CHR 0x22, CHR 0x0A]"
  have "datasource_block doc_postgres [] '' '' ''db'' '' '' ?body [CHR 0x0A]"
    by (simp add: datasource_block_def header_def header_parts_def doc_postgres_def
          is_space_def is_word_def not_rbrace_def)
  then have f: "first_nonempty_block doc_postgres [] '' '' ''db'' '' '' ?body [CHR 0x0A]"
    by (simp add: first_nonempty_block_def)
  have u: "\<not> url_property ?body"
    unfolding MatchString_iff [symmetric] by (simp add: regex_defs)
  from C2_patch_inserts_line [OF f u] f u show ?thesis
    by (simp add: header_def doc_postgres_patched_def injected_def doc_postgres_def)
qed

text \<open>
  C4: when the body of the first datasource block has the property name \<open>url\<close> (not
  preceded by a word byte), optional whitespace and \<open>=\<close>, Evaluate answers unchanged, and
  shimSchemaCompatibility on a schema file with these bytes returns the original
  arguments, no cleanup and no error, and creates no file.
\<close>

theorem C4_url_present_unchanged:
  assumes "first_block doc pre ws1 ident ws2 body post" and "url_property body"
  shows "Evaluate doc = Unchanged \<and>
         (\<forall>c args fs. os_ReadFile fs (locateSchema fs args) = Some doc \<longrightarrow>
            shimSchemaCompatibility (c :: collaborators) args fs = (args, None, None, fs))"
proof -
  from first_block_nonempty [OF assms(1) url_property_nonempty [OF assms(2)]]
  have "first_nonempty_block doc pre ws1 ident ws2 body post" .
  from Evaluate_first_nonempty_block [OF this] assms(2)
  have "Evaluate doc = Unchanged" by simp
  then show ?thesis using shim_Unchanged by blast
qed

theorem C4_url_present_unchanged_witness:
  "first_block doc_with_url [] '' '' ''db'' '' '' (''  url  =env(X) '') [] \<and>
   url_property (''  url  =env(X) '') \<and>
   Evaluate doc_with_url = Unchanged \<and>
   shimSchemaCompatibility demo_collab [''validate'', ''--schema=a.prisma'']
       [''a.prisma'' \<mapsto> \<lparr>readable = True, bytes = doc_with_url\<rparr>]
     = ([''validate'', ''--schema=a.prisma''], None, None,
        [''a.prisma'' \<mapsto> \<lparr>readable = True, bytes = doc_with_url\<rparr>])"
proof -
  have "datasource_block doc_with_url [] '' '' ''db'' '' '' (''  url  =env(X) '') []"
    by (simp add: datasource_block_def header_def header_parts_def doc_with_url_def
          is_space_def is_word_def not_rbrace_def)
  then have f: "first_block doc_with_url [] '' '' ''db'' '' '' (''  url  =env(X) '') []"
    by (simp add: first_block_def)
  have "''  url  =env(X) '' = ''  '' @ ''url'' @ ''  '' @ ''='' @ ''env(X) ''" by simp
  moreover have "\<not> is_word (last ''  '')" "list_all is_space ''  ''"
    by (simp_all add: is_word_def is_space_def)
  ultimately have u: "url_property (''  url  =env(X) '')"
    unfolding url_property_def by blast
  have r: "os_ReadFile [''a.prisma'' \<mapsto> \<lparr>readable = True, bytes = doc_with_url\<rparr>]
             (locateSchema [''a.prisma'' \<mapsto> \<lparr>readable = True, bytes = doc_with_url\<rparr>]
                [''validate'', ''--schema=a.prisma'']) = Some doc_with_url"
    by (simp add: os_ReadFile_def locateSchema_def)
  from C4_url_present_unchanged [OF f u] r f u show ?thesis by blast
qed

text \<open>
  C10: the url check is a plain pattern match over the body.  Whatever stands before the
  match (\<open>a\<close>, for example the \<open>//\<close> of a comment) and after it (\<open>b\<close>), a body
  \<open>a url ws = b\<close> of the first datasource block makes Evaluate answer unchanged, and no
  url line is injected.
\<close>

theorem C10_url_match_any_context:
  assumes "first_block doc pre ws1 ident ws2 body post"
    and "body = a @ ''url'' @ ws @ ''='' @ b"
    and "a = [] \<or> \<not> is_word (last a)" and "list_all is_space ws"
  shows "Evaluate doc = Unchanged"
proof -
  from assms(2-4) have u: "url_property body" unfolding url_property_def by blast
  from first_block_nonempty [OF assms(1) url_property_nonempty [OF u]]
  have "first_nonempty_block doc pre ws1 ident ws2 body post" .
  from Evaluate_first_nonempty_block [OF this] u show ?thesis by simp
qed

theorem C10_url_match_any_context_witness:
  "first_block doc_url_in_comment [] '' '' ''db'' '' ''
     (''// '' @ ''url'' @ '' '' @ ''='' @ '' env(X)'' @ [CHR 0x0A] @ ''provider = p'' @ [CHR 0x0A]) [] \<and>
   \<not> is_word (last ''// '') \<and> list_all is_space '' '' \<and>
   Evaluate doc_url_in_comment = Unchanged"
proof -
  let ?body = "''// '' @ ''url'' @ '' '' @ ''='' @ '' env(X)'' @ [CHR 0x0A] @ ''provider = p'' @ [CHR 0x0A]"
  have "datasource_block doc_url_in_comment [] '' '' ''db'' '' '' ?body []"
    by (simp add: datasource_block_def header_def header_parts_def doc_url_in_comment_def
          is_space_def is_word_def not_rbrace_def)
  then have f: "first_block doc_url_in_comment [] '' '' ''db'' '' '' ?body []"
    by (simp add: first_block_def)
  have w: "\<not> is_word (last ''// '')" and s: "list_all is_space '' ''"
    by (simp_all add: is_word_def is_space_def)
  have "''// '' = [] \<or> \<not> is_word (last ''// '')" using w by simp
  from C10_url_match_any_context [OF f refl this s] f w s show ?thesis by blast
qed

subsection \<open>The effects of shimSchemaCompatibility\<close>

lemma os_CreateTemp_Inr:
  "os_CreateTemp names fs = (Inr n, fs1) \<Longrightarrow>
     fs n = None \<and> fs1 = fs(n \<mapsto> \<lparr>readable = True, bytes = []\<rparr>)"
  by (induction names) (auto split: if_splits)

lemma os_CreateTemp_Inl: "os_CreateTemp names fs = (Inl e, fs1) \<Longrightarrow> fs1 = fs"
  by (induction names) (auto split: if_splits)






lemma shim_cases:
  "shimSchemaCompatibility c args fs = (args, None, None, fs) \<or>
   (\<exists>e. shimSchemaCompatibility c args fs =
            (args, None, Some (CouldNotCreateTempSchemaFile e), fs)) \<or>
   (\<exists>tmpName doc doc' k e.
      os_ReadFile fs (locateSchema fs args) = Some doc \<and> Evaluate doc = Patched doc' \<and>
      fs tmpName = None \<and> write_fault c = Some k \<and>
      shimSchemaCompatibility c args fs =
        (args, None, Some (CouldNotWriteToTempSchemaFile e),
         os_Remove_discard (remove_fault c) tmpName
           (fs(tmpName \<mapsto> \<lparr>readable = True, bytes = take k doc'\<rparr>)))) \<or>
   (\<exists>tmpName doc doc'.
      os_ReadFile fs (locateSchema fs args) = Some doc \<and> Evaluate doc = Patched doc' \<and>
      fs tmpName = None \<and> write_fault c = None \<and>
      shimSchemaCompatibility c args fs =
        (updateArgs tmpName args, Some (os_Remove_discard (remove_fault c) tmpName), None,
         fs(tmpName \<mapsto> \<lparr>readable = True, bytes = doc'\<rparr>)))"
proof (cases "locateSchema fs args = []")
  case True
  then show ?thesis by (simp add: shimSchemaCompatibility_def)
next
  case ne: False
  show ?thesis
  proof (cases "os_ReadFile fs (locateSchema fs args)")
    case None
    with ne show ?thesis by (simp add: shimSchemaCompatibility_def)
  next
    case rd: (Some doc)
    show ?thesis
    proof (cases "Evaluate doc")
      case Unchanged
      with ne rd show ?thesis by (simp add: shimSchemaCompatibility_def)
    next
      case (Patched doc')
      obtain r fs1 where ct: "os_CreateTemp (temp_names c) fs = (r, fs1)"
        by (cases "os_CreateTemp (temp_names c) fs")
      show ?thesis
      proof (cases r)
        case (Inl e)
        with ct os_CreateTemp_Inl have "fs1 = fs" by blast
        with ne rd Patched ct Inl show ?thesis by (simp add: shimSchemaCompatibility_def)
      next
        case (Inr tmpName)
        with ct os_CreateTemp_Inr have fr: "fs tmpName = None"
          and fs1: "fs1 = fs(tmpName \<mapsto> \<lparr>readable = True, bytes = []\<rparr>)" by blast+
        show ?thesis
        proof (cases "write_fault c")
          case None
          have "shimSchemaCompatibility c args fs =
                  (updateArgs tmpName args, Some (os_Remove_discard (remove_fault c) tmpName),
                   None, fs(tmpName \<mapsto> \<lparr>readable = True, bytes = doc'\<rparr>))"
            using ne rd Patched ct Inr fs1 None
            by (simp add: shimSchemaCompatibility_def WriteString_def)
          with rd Patched fr None show ?thesis by blast
        next
          case (Some k)
          have "shimSchemaCompatibility c args fs =
                  (args, None, Some (CouldNotWriteToTempSchemaFile (External ''WriteString'')),
                   os_Remove_discard (remove_fault c) tmpName
                     (fs(tmpName \<mapsto> \<lparr>readable = True, bytes = take k doc'\<rparr>)))"
            using ne rd Patched ct Inr fs1 Some
            by (simp add: shimSchemaCompatibility_def WriteString_def)
          with rd Patched fr Some show ?thesis by blast
        qed
      qed
    qed
  qed
qed



lemma shim_cleanup:
  assumes "shimSchemaCompatibility c args fs = (newArgs, Some f, err, fs')"
  shows "\<exists>tmpName doc doc'.
           os_ReadFile fs (locateSchema fs args) = Some doc \<and> Evaluate doc = Patched doc' \<and>
           fs tmpName = None \<and> newArgs = updateArgs tmpName args \<and>
           f = os_Remove_discard (remove_fault c) tmpName \<and>
           err = None \<and> fs' = fs(tmpName \<mapsto> \<lparr>readable = True, bytes = doc'\<rparr>)"
  using shim_cases [of c args fs] assms by auto


subsection \<open>The argument loop\<close>

lemma updateArgs_loop_none:
  "(\<forall>j\<ge>i. \<not> schema_flag_at args j) \<Longrightarrow> updateArgs_loop tmpName i args = (args, False)"
proof (induction tmpName i args rule: updateArgs_loop.induct)
  case (1 tmpName i newArgs)
  show ?case
  proof (cases "i < length newArgs")
    case False
    then show ?thesis by (simp add: updateArgs_loop.simps)
  next
    case True
    from "1.prems" have nf: "\<not> schema_flag_at newArgs i" by simp
    with True have a: "\<not> (newArgs ! i = ''--schema'' \<and> i + 1 < length newArgs)"
      and b: "\<not> prefix ''--schema='' (newArgs ! i)"
      by (auto simp: schema_flag_at_def)
    from "1.prems" have "\<forall>j\<ge>i + 1. \<not> schema_flag_at newArgs j" by simp
    from "1.IH" [OF _ refl a b this] True
    have "updateArgs_loop tmpName (i + 1) newArgs = (newArgs, False)" by simp
    with True a b show ?thesis by (subst updateArgs_loop.simps) (simp add: Let_def)
  qed
qed

lemma updateArgs_loop_first:
  "i \<le> k \<Longrightarrow> schema_flag_at args k \<Longrightarrow> (\<forall>j. i \<le> j \<and> j < k \<longrightarrow> \<not> schema_flag_at args j) \<Longrightarrow>
     updateArgs_loop tmpName i args =
       (if args ! k = ''--schema'' then args[k + 1 := tmpName]
        else args[k := ''--schema='' @ tmpName], True)"
proof (induction tmpName i args rule: updateArgs_loop.induct)
  case (1 tmpName i newArgs)
  from "1.prems"(1,2) have il: "i < length newArgs" by (simp add: schema_flag_at_def)
  show ?case
  proof (cases "i = k")
    case True
    from "1.prems"(2) have "schema_flag_at newArgs i" unfolding True .
    then have "(newArgs ! i = ''--schema'' \<and> i + 1 < length newArgs) \<or>
               (newArgs ! i \<noteq> ''--schema'' \<and> prefix ''--schema='' (newArgs ! i))"
      by (auto simp: schema_flag_at_def)
    with il show ?thesis
      unfolding True [symmetric] by (subst updateArgs_loop.simps) (auto simp: Let_def)
  next
    case False
    with "1.prems"(1) have ik: "i < k" by simp
    with "1.prems"(3) have nf: "\<not> schema_flag_at newArgs i" by simp
    with il have a: "\<not> (newArgs ! i = ''--schema'' \<and> i + 1 < length newArgs)"
      and b: "\<not> prefix ''--schema='' (newArgs ! i)"
      by (auto simp: schema_flag_at_def)
    from ik have le: "i + 1 \<le> k" by simp
    from "1.prems"(3) have "\<forall>j. i + 1 \<le> j \<and> j < k \<longrightarrow> \<not> schema_flag_at newArgs j" by simp
    from "1.IH" [OF _ refl a b le "1.prems"(2) this] il
    have "updateArgs_loop tmpName (i + 1) newArgs =
       (if newArgs ! k = ''--schema'' then newArgs[k + 1 := tmpName]
        else newArgs[k := ''--schema='' @ tmpName], True)" by simp
    with il a b show ?thesis by (subst updateArgs_loop.simps) (auto simp: Let_def)
  qed
qed

lemma updateArgs_none:
  "(\<forall>i. \<not> schema_flag_at args i) \<Longrightarrow> updateArgs tmpName args = args @ [''--schema'', tmpName]"
  by (simp add: updateArgs_def updateArgs_loop_none)

lemma updateArgs_first:
  "schema_flag_at args k \<Longrightarrow> (\<forall>j<k. \<not> schema_flag_at args j) \<Longrightarrow>
     updateArgs tmpName args =
       (if args ! k = ''--schema'' then args[k + 1 := tmpName]
        else args[k := ''--schema='' @ tmpName])"
  using updateArgs_loop_first [of 0 k args tmpName] by (simp add: updateArgs_def)

subsection \<open>The example invocation\<close>

lemma Evaluate_doc_postgres: "Evaluate doc_postgres = Patched doc_postgres_patched"
  by (simp add: Evaluate_def doc_postgres_def doc_postgres_patched_def regex_defs)

lemma updateArgs_demo:
  "updateArgs ''/tmp/schema-1.prisma'' demo_args =
     [''migrate'', ''dev'', ''--schema=/tmp/schema-1.prisma'']"
proof -
  have "schema_flag_at demo_args 2" by (simp add: schema_flag_at_def demo_args_def)
  moreover have "\<forall>j<2. \<not> schema_flag_at demo_args j"
    by (simp add: schema_flag_at_def demo_args_def less_Suc_eq numeral_2_eq_2)
  ultimately show ?thesis
    using updateArgs_first [of demo_args 2 "''/tmp/schema-1.prisma''"]
    by (simp add: demo_args_def)
qed

lemma shim_demo:
  "shimSchemaCompatibility demo_collab demo_args demo_fs =
     ([''migrate'', ''dev'', ''--schema=/tmp/schema-1.prisma''],
      Some (os_Remove_discard (remove_fault demo_collab) ''/tmp/schema-1.prisma''), None,
      demo_fs(''/tmp/schema-1.prisma'' \<mapsto> \<lparr>readable = True, bytes = doc_postgres_patched\<rparr>))"
proof -
  have l: "locateSchema demo_fs demo_args = ''a.prisma''"
    by (simp add: locateSchema_def demo_args_def)
  have r: "os_ReadFile demo_fs ''a.prisma'' = Some doc_postgres"
    by (simp add: os_ReadFile_def demo_fs_def)
  have t: "os_CreateTemp (temp_names demo_collab) demo_fs =
             (Inr ''/tmp/schema-1.prisma'',
              demo_fs(''/tmp/schema-1.prisma'' \<mapsto> \<lparr>readable = True, bytes = []\<rparr>))"
    by (simp add: demo_collab_def demo_fs_def)
  have w: "write_fault demo_collab = None" by (simp add: demo_collab_def)
  show ?thesis
    unfolding shimSchemaCompatibility_def
    by (simp add: l r t w Evaluate_doc_postgres WriteString_def updateArgs_demo)
qed


text \<open>
  C5: when a patch is materialized (the cleanup closure is returned), the arguments are
  rewritten towards the temporary file \<open>tmpName\<close>.  With no schema flag the pair
  \<open>--schema tmpName\<close> is appended; otherwise, at the first schema flag \<open>k\<close>, the value
  token after \<open>--schema\<close>, or the value inside \<open>--schema=<value>\<close>, is replaced.  A list
  update changes one position and keeps the length and every other token.
\<close>

theorem C5_arguments_rewritten:
  assumes "shimSchemaCompatibility c args fs = (newArgs, Some cleanup, err, fs')"
  shows "\<exists>tmpName. fs tmpName = None \<and> fs' tmpName \<noteq> None \<and> cleanup = os_Remove_discard (remove_fault c) tmpName \<and>
           ((\<forall>i. \<not> schema_flag_at args i) \<longrightarrow> newArgs = args @ [''--schema'', tmpName]) \<and>
           (\<forall>k. schema_flag_at args k \<and> (\<forall>j<k. \<not> schema_flag_at args j) \<longrightarrow>
                newArgs = (if args ! k = ''--schema'' then args[k + 1 := tmpName]
                           else args[k := ''--schema='' @ tmpName]))"
proof -
  from shim_cleanup [OF assms] obtain tmpName doc' where
    fr: "fs tmpName = None" and na: "newArgs = updateArgs tmpName args"
    and cl: "cleanup = os_Remove_discard (remove_fault c) tmpName"
    and fs': "fs' = fs(tmpName \<mapsto> \<lparr>readable = True, bytes = doc'\<rparr>)" by blast
  have "fs' tmpName \<noteq> None" by (simp add: fs')
  moreover have "(\<forall>i. \<not> schema_flag_at args i) \<longrightarrow> newArgs = args @ [''--schema'', tmpName]"
    unfolding na using updateArgs_none by blast
  moreover have "\<forall>k. schema_flag_at args k \<and> (\<forall>j<k. \<not> schema_flag_at args j) \<longrightarrow>
                newArgs = (if args ! k = ''--schema'' then args[k + 1 := tmpName]
                           else args[k := ''--schema='' @ tmpName])"
    unfolding na using updateArgs_first by blast
  ultimately show ?thesis using fr cl by blast
qed

theorem C5_arguments_rewritten_witness:
  "shimSchemaCompatibility demo_collab demo_args demo_fs =
     ([''migrate'', ''dev'', ''--schema=/tmp/schema-1.prisma''],
      Some (os_Remove_discard (remove_fault demo_collab) ''/tmp/schema-1.prisma''), None,
      demo_fs(''/tmp/schema-1.prisma'' \<mapsto> \<lparr>readable = True, bytes = doc_postgres_patched\<rparr>)) \<and>
   schema_flag_at demo_args 2 \<and> \<not> schema_flag_at demo_args 0 \<and> \<not> schema_flag_at demo_args 1 \<and>
   (\<exists>tmpName. demo_fs tmpName = None \<and>
      [''migrate'', ''dev'', ''--schema=/tmp/schema-1.prisma''] =
        demo_args[2 := ''--schema='' @ tmpName])"
proof -
  have f: "schema_flag_at demo_args 2" by (simp add: schema_flag_at_def demo_args_def)
  have n: "\<forall>j<2. \<not> schema_flag_at demo_args j"
    by (simp add: schema_flag_at_def demo_args_def less_Suc_eq numeral_2_eq_2)
  have k: "demo_args ! 2 \<noteq> ''--schema''" by (simp add: demo_args_def)
  from C5_arguments_rewritten [OF shim_demo] f n k
  have "\<exists>tmpName. demo_fs tmpName = None \<and>
      [''migrate'', ''dev'', ''--schema=/tmp/schema-1.prisma''] =
        demo_args[2 := ''--schema='' @ tmpName]"
    by metis
  moreover have "\<not> schema_flag_at demo_args 0" "\<not> schema_flag_at demo_args 1"
    by (simp_all add: schema_flag_at_def demo_args_def)
  ultimately show ?thesis using shim_demo f by blast
qed

text \<open>
  C7: when the schema file at the located path cannot be read, shimSchemaCompatibility
  returns the original arguments, no cleanup and no error, and leaves the file system as
  it was (no temporary file); Run then starts the child process with the original
  arguments.
\<close>

theorem C7_unreadable_schema_no_shim:
  assumes "os_ReadFile fs (locateSchema fs args) = None"
  shows "shimSchemaCompatibility c args fs = (args, None, None, fs) \<and>
         (\<forall>fs0 output. FetchNative c (GlobalCacheDir c) fs0 = (None, fs) \<longrightarrow>
            Run c args output fs0 =
              (case cmd_Run c (path_Join c [GlobalCacheDir c, PrismaCLIName c]) args
                      (composeEnv c (GlobalCacheDir c)) output fs of
                 (None, fs3) \<Rightarrow> (None, fs3)
               | (Some e, fs3) \<Rightarrow> (Some (CouldNotRun args e), fs3)))"
proof -
  have s: "shimSchemaCompatibility c args fs = (args, None, None, fs)"
    using assms by (simp add: shimSchemaCompatibility_def Let_def)
  then show ?thesis
    by (auto simp: Run_def Let_def split: prod.splits option.splits)
qed

theorem C7_unreadable_schema_no_shim_witness:
  "os_ReadFile unreadable_fs (locateSchema unreadable_fs [''validate'']) = None \<and>
   locateSchema unreadable_fs [''validate''] = ''./schema.prisma'' \<and>
   shimSchemaCompatibility demo_collab [''validate''] unreadable_fs =
     ([''validate''], None, None, unreadable_fs) \<and>
   Run demo_collab [''validate''] True unreadable_fs =
     (Some (CouldNotRun [''validate''] (External ''exit status 1'')), unreadable_fs)"
proof -
  have f: "FetchNative demo_collab (GlobalCacheDir demo_collab) unreadable_fs = (None, unreadable_fs)"
    by (simp add: demo_collab_def)
  have c: "cmd_Run demo_collab n a e out fs = (Some (External ''exit status 1''), fs)" for n a e out fs
    by (simp add: demo_collab_def)
  have l: "locateSchema unreadable_fs [''validate''] = ''./schema.prisma''"
    by (simp add: locateSchema_def defaultPaths_def os_Stat_def unreadable_fs_def)
  have r: "os_ReadFile unreadable_fs (locateSchema unreadable_fs [''validate'']) = None"
    unfolding l by (simp add: os_ReadFile_def unreadable_fs_def)
  from C7_unreadable_schema_no_shim [OF r, of demo_collab] f l r show ?thesis
    by (simp add: c)
qed

subsection \<open>Run after the shim\<close>












subsection \<open>The environment of the child process\<close>

lemma engineEntry_eq: "Env engine @ CHR ''='' # engineValue c dir engine = engineEntry c dir engine"
  by (simp add: engineValue_def engineEntry_def Let_def)

lemma enginesLoop_eq:
  "enginesLoop c dir engines cmdEnv = cmdEnv @ map (engineEntry c dir) engines"
  by (induction engines arbitrary: cmdEnv) (simp_all add: engineEntry_eq)

lemma takeWhile_until: "x \<notin> set xs \<Longrightarrow> takeWhile (\<lambda>ch. ch \<noteq> x) (xs @ x # ys) = xs"
  by (induction xs) auto

lemma entry_key_engineEntry:
  "CHR ''='' \<notin> set (Env engine) \<Longrightarrow> entry_key (engineEntry c dir engine) = Env engine"
  by (simp add: entry_key_def engineEntry_def takeWhile_until)

lemma filter_engine_entries:
  assumes "distinct (map Env engines)" and "\<forall>e\<in>set engines. CHR ''='' \<notin> set (Env e)"
    and "engine \<in> set engines"
  shows "filter (\<lambda>entry. CHR ''='' \<in> set entry \<and> entry_key entry = Env engine)
           (map (engineEntry c dir) engines) = [engineEntry c dir engine]"
  using assms
proof (induction engines)
  case Nil
  then show ?case by simp
next
  case (Cons e es)
  have eq: "CHR ''='' \<in> set (engineEntry c dir x)" for x by (simp add: engineEntry_def)
  show ?case
  proof (cases "engine = e")
    case True
    from Cons.prems(1) have "\<forall>x\<in>set es. Env x \<noteq> Env e" by (auto simp: image_iff)
    with Cons.prems(2) have "\<forall>x\<in>set es. entry_key (engineEntry c dir x) \<noteq> Env e"
      by (simp add: entry_key_engineEntry)
    then have "filter (\<lambda>entry. CHR ''='' \<in> set entry \<and> entry_key entry = Env e)
                 (map (engineEntry c dir) es) = []"
      by (auto simp: filter_empty_conv)
    with Cons.prems(2) True show ?thesis by (simp add: entry_key_engineEntry eq)
  next
    case False
    with Cons.prems(3) have in_es: "engine \<in> set es" by simp
    with Cons.prems(1) have "Env e \<noteq> Env engine" by auto
    with Cons.prems(2) have "entry_key (engineEntry c dir e) \<noteq> Env engine"
      by (simp add: entry_key_engineEntry)
    moreover from Cons.IH [OF _ _ in_es] Cons.prems(1,2)
    have "filter (\<lambda>entry. CHR ''='' \<in> set entry \<and> entry_key entry = Env engine)
           (map (engineEntry c dir) es) = [engineEntry c dir engine]" by simp
    ultimately show ?thesis by (simp add: eq)
  qed
qed

lemma effective_append_last:
  assumes "filter (\<lambda>entry. CHR ''='' \<in> set entry \<and> entry_key entry = key) ys = [y]"
  shows "effective (xs @ ys) key = Some (drop (length key + 1) y)"
proof -
  have "filter (\<lambda>entry. CHR ''='' \<in> set entry \<and> entry_key entry = key) (rev ys) = [y]"
    using assms by (simp add: rev_filter [symmetric])
  then show ?thesis by (simp add: effective_def)
qed

text \<open>
  C6: the environment of the child process is the ambient environment, unchanged, then
  the two fixed entries, then one entry per engine descriptor, in order: the ambient
  value of the descriptor's variable when it is not empty, else the path joined from
  the cache directory, the engine version and \<open>prisma-<name>-<binaryName>\<close>.  The
  engine entries come last, so (engine variable names being distinct and without \<open>=\<close>)
  they are the values the child sees.
\<close>

theorem C6_environment_composed:
  "composeEnv c dir =
     Environ c @ [''PRISMA_HIDE_UPDATE_MESSAGE=true'', ''PRISMA_CLI_QUERY_ENGINE_TYPE=binary'']
       @ map (engineEntry c dir) (Engines c) \<and>
   (distinct (map Env (Engines c)) \<and> (\<forall>e\<in>set (Engines c). CHR ''='' \<notin> set (Env e)) \<longrightarrow>
      (\<forall>e\<in>set (Engines c).
         effective (composeEnv c dir) (Env e) =
           Some (if Getenv c (Env e) \<noteq> [] then Getenv c (Env e)
                 else path_Join c
                        [dir, EngineVersion c, ''prisma-'' @ Name e @ ''-'' @ BinaryName c])))"
proof (intro conjI impI ballI)
  show eq: "composeEnv c dir =
     Environ c @ [''PRISMA_HIDE_UPDATE_MESSAGE=true'', ''PRISMA_CLI_QUERY_ENGINE_TYPE=binary'']
       @ map (engineEntry c dir) (Engines c)"
    by (simp add: composeEnv_def Let_def enginesLoop_eq)
  fix e
  assume a: "distinct (map Env (Engines c)) \<and> (\<forall>e\<in>set (Engines c). CHR ''='' \<notin> set (Env e))"
    and e: "e \<in> set (Engines c)"
  from a e have f: "filter (\<lambda>entry. CHR ''='' \<in> set entry \<and> entry_key entry = Env e)
           (map (engineEntry c dir) (Engines c)) = [engineEntry c dir e]"
    using filter_engine_entries by blast
  have "composeEnv c dir =
     (Environ c @ [''PRISMA_HIDE_UPDATE_MESSAGE=true'', ''PRISMA_CLI_QUERY_ENGINE_TYPE=binary''])
       @ map (engineEntry c dir) (Engines c)"
    using eq by simp
  from effective_append_last [OF f, of "Environ c @ [''PRISMA_HIDE_UPDATE_MESSAGE=true'', ''PRISMA_CLI_QUERY_ENGINE_TYPE=binary'']", folded this]
  show "effective (composeEnv c dir) (Env e) =
           Some (if Getenv c (Env e) \<noteq> [] then Getenv c (Env e)
                 else path_Join c
                        [dir, EngineVersion c, ''prisma-'' @ Name e @ ''-'' @ BinaryName c])"
    by (simp add: engineEntry_def)
qed

theorem C6_environment_composed_witness:
  "composeEnv demo_collab ''/cache'' =
     [''HOME=/root'', ''PRISMA_QUERY_ENGINE_BINARY=/custom/qe'',
      ''PRISMA_HIDE_UPDATE_MESSAGE=true'', ''PRISMA_CLI_QUERY_ENGINE_TYPE=binary'',
      ''PRISMA_QUERY_ENGINE_BINARY=/custom/qe'',
      ''PRISMA_SCHEMA_ENGINE_BINARY=/cache/abc123/prisma-schema-engine-debian''] \<and>
   distinct (map Env (Engines demo_collab)) \<and>
   list_all (\<lambda>e. CHR ''='' \<notin> set (Env e)) (Engines demo_collab) \<and>
   effective (composeEnv demo_collab ''/cache'') ''PRISMA_QUERY_ENGINE_BINARY'' = Some ''/custom/qe'' \<and>
   effective (composeEnv demo_collab ''/cache'') ''PRISMA_SCHEMA_ENGINE_BINARY'' =
     Some ''/cache/abc123/prisma-schema-engine-debian''"
proof -
  have d: "distinct (map Env (Engines demo_collab))" by (simp add: demo_collab_def)
  have n: "\<forall>e\<in>set (Engines demo_collab). CHR ''='' \<notin> set (Env e)" by (simp add: demo_collab_def)
  note t = C6_environment_composed [of demo_collab "''/cache''"]
  from t have 1: "composeEnv demo_collab ''/cache'' =
     [''HOME=/root'', ''PRISMA_QUERY_ENGINE_BINARY=/custom/qe'',
      ''PRISMA_HIDE_UPDATE_MESSAGE=true'', ''PRISMA_CLI_QUERY_ENGINE_TYPE=binary'',
      ''PRISMA_QUERY_ENGINE_BINARY=/custom/qe'',
      ''PRISMA_SCHEMA_ENGINE_BINARY=/cache/abc123/prisma-schema-engine-debian'']"
    by (simp add: demo_collab_def engineEntry_def)
  from t d n have 2: "\<forall>e\<in>set (Engines demo_collab).
         effective (composeEnv demo_collab ''/cache'') (Env e) =
           Some (if Getenv demo_collab (Env e) \<noteq> [] then Getenv demo_collab (Env e)
                 else path_Join demo_collab
                        [''/cache'', EngineVersion demo_collab, ''prisma-'' @ Name e @ ''-'' @ BinaryName demo_collab])"
    by blast
  have 3: "effective (composeEnv demo_collab ''/cache'') ''PRISMA_QUERY_ENGINE_BINARY'' = Some ''/custom/qe''"
    using 2 [rule_format, of "\<lparr>Name = ''query-engine'', Env = ''PRISMA_QUERY_ENGINE_BINARY''\<rparr>"]
    by (simp add: demo_collab_def)
  have 4: "effective (composeEnv demo_collab ''/cache'') ''PRISMA_SCHEMA_ENGINE_BINARY'' =
     Some ''/cache/abc123/prisma-schema-engine-debian''"
    using 2 [rule_format, of "\<lparr>Name = ''schema-engine'', Env = ''PRISMA_SCHEMA_ENGINE_BINARY''\<rparr>"]
    by (simp add: demo_collab_def)
  from n have "list_all (\<lambda>e. CHR ''='' \<notin> set (Env e)) (Engines demo_collab)"
    by (simp add: list_all_iff)
  with 1 d 3 4 show ?thesis by blast
qed

end
